theory Spec2Isabelle
  imports Complex_Main
begin

section \<open>Queue handles (the module imported as lib/queues)\<close>

text \<open>
  The two queues are created with constant default job options. The option objects are
  records; the backoff type is one of the two strings the queue library knows.
\<close>

datatype backoff_type = fixed | exponential

record backoff_options =
  type :: backoff_type
  delay :: nat

record keep_jobs =
  count :: nat
  age :: nat

record job_options =
  attempts :: nat
  backoff :: backoff_options
  removeOnComplete :: keep_jobs
  removeOnFail :: keep_jobs

record queue =
  name :: string
  defaultJobOptions :: job_options

definition CHECK_SOURCE_QUEUE :: string where
  "CHECK_SOURCE_QUEUE = ''check-source''"

definition NOTIFICATION_QUEUE :: string where
  "NOTIFICATION_QUEUE = ''notifications''"

definition checkSourceQueue :: queue where
  "checkSourceQueue =
     \<lparr>name = CHECK_SOURCE_QUEUE,
      defaultJobOptions =
        \<lparr>attempts = 3,
         backoff = \<lparr>type = exponential, delay = 5000\<rparr>,
         removeOnComplete = \<lparr>count = 100, age = 3600\<rparr>,
         removeOnFail = \<lparr>count = 500, age = 86400\<rparr>\<rparr>\<rparr>"

definition notificationQueue :: queue where
  "notificationQueue =
     \<lparr>name = NOTIFICATION_QUEUE,
      defaultJobOptions =
        \<lparr>attempts = 5,
         backoff = \<lparr>type = exponential, delay = 1000\<rparr>,
         removeOnComplete = \<lparr>count = 100, age = 3600\<rparr>,
         removeOnFail = \<lparr>count = 500, age = 86400\<rparr>\<rparr>\<rparr>"

section \<open>Console output and calls to collaborators\<close>

text \<open>
  Everything the modelled code does to the outside world is recorded, in order, as an
  effect: a line on the console, a call to the scheduler routine, to a timer, to a worker,
  to the Redis client, or the exit of the process. Console lines are kept as a datatype
  with the interpolated values as arguments; the comment gives the text of the source.
\<close>

datatype signal = SIGTERM | SIGINT

type_synonym error = string

datatype message =
    Workers_Starting \<comment> \<open>[Workers] Starting...\<close>
  | Workers_Active \<comment> \<open>[Workers] Active and listening for jobs\<close>
  | Workers_Received signal \<comment> \<open>[Workers] Received $signal, shutting down gracefully...\<close>
  | Workers_Shutdown_complete \<comment> \<open>[Workers] Shutdown complete\<close>
  | Scheduler_Initial_run_failed error \<comment> \<open>[Scheduler] Initial run failed:\<close>
  | Scheduler_Error error \<comment> \<open>[Scheduler] Error in master scheduler:\<close>
  | Redis_Giving_up int \<comment> \<open>[Redis] Failed to connect after $times attempts. Giving up.\<close>
  | Redis_Disconnected \<comment> \<open>[Redis] Disconnected\<close>
  | Redis_Error_during_disconnect error \<comment> \<open>[Redis] Error during disconnect:\<close>

datatype worker_id = CheckSource | Notification

datatype effect =
    console_log message
  | console_error message
  | runMasterScheduler
  | setInterval nat
  | clearInterval
  | worker_close worker_id
  | redis_quit
  | redis_disconnect
  | process_exit nat

text \<open>An awaited promise settles in one of two ways; a rejection carries the error.\<close>

datatype settled = Fulfilled | Rejected error

section \<open>The Redis connection (the module imported as lib/redis)\<close>

subsection \<open>retryStrategy\<close>

text \<open>
  The client calls \<open>retryStrategy\<close> with the number of the reconnection attempt; the
  result is the delay in milliseconds before that attempt, or null (\<open>None\<close>) to stop
  reconnecting. The delay is computed before the test, as in the source. The parameter
  \<open>times\<close> of the source is \<open>n\<close> here (\<open>times\<close> is the name of multiplication).
\<close>

definition retryStrategy :: "int \<Rightarrow> effect list \<times> int option" where
  "retryStrategy n =
     (let delay = min (n * 200) 5000 in
      if n > 20 then ([console_error (Redis_Giving_up n)], None)
      else ([], Some delay))"

subsection \<open>disconnectRedis\<close>

text \<open>The connection states of the client, its \<open>status\<close> property.\<close>

datatype redis_status = Wait | Reconnecting | Connecting | Connect | Ready | Close | End

record redis_client =
  status :: redis_status

text \<open>
  The client itself is a library outside the repository. \<open>disconnectRedis\<close> reads
  its status and assigns none: after a fulfilled \<open>quit()\<close> the status is what the
  client reports, and the model leaves it as it was. For the forced \<open>disconnect()\<close> the
  model takes the connection as ended by the call (status end); the client itself reports
  that only with the close event that follows, so the status component of a result after
  \<open>disconnect()\<close> is the model's and not the code's. The awaited \<open>quit()\<close> is taken
  to settle.
\<close>

definition disconnect :: "redis_client \<Rightarrow> redis_client" where
  "disconnect c = c\<lparr>status := End\<rparr>"

text \<open>
  \<open>disconnectRedis\<close> has one await. \<open>disconnectRedis_call\<close> is the code before it:
  \<open>None\<close> when the function returns at once, otherwise the effects up to the await.
  \<open>disconnectRedis_resume\<close> is the code after it: the rest of the try block when
  \<open>quit()\<close> was fulfilled, the catch block when it was rejected.
  \<open>disconnectRedis\<close> is the whole call, given how \<open>quit()\<close> settles; its first
  component is the settlement of the returned promise (\<open>Inl\<close> an error thrown to the
  caller, \<open>Inr\<close> a normal return).
\<close>

definition disconnectRedis_call :: "redis_client \<Rightarrow> effect list option" where
  "disconnectRedis_call c = (if status c = End then None else Some [redis_quit])"

definition disconnectRedis_resume :: "settled \<Rightarrow> redis_client \<Rightarrow> effect list \<times> redis_client" where
  "disconnectRedis_resume q c =
     (case q of
        Fulfilled \<Rightarrow> ([console_log Redis_Disconnected], c)
      | Rejected err \<Rightarrow>
          ([console_error (Redis_Error_during_disconnect err), redis_disconnect],
           disconnect c))"

definition disconnectRedis :: "settled \<Rightarrow> redis_client \<Rightarrow> (error + unit) \<times> effect list \<times> redis_client" where
  "disconnectRedis q c =
     (case disconnectRedis_call c of
        None \<Rightarrow> (Inr (), [], c)
      | Some fx \<Rightarrow> (let (fx', c') = disconnectRedis_resume q c in (Inr (), fx @ fx', c')))"

section \<open>The workers module\<close>

subsection \<open>Worker configuration\<close>

text \<open>
  The options the two workers are constructed with. The fields \<open>max\<close> and \<open>duration\<close>
  of the limiter are \<open>limiter_max\<close> and \<open>limiter_duration\<close> here; a worker constructed
  without a \<open>limiter\<close> option has \<open>None\<close>.
\<close>

record rate_limit =
  limiter_max :: nat
  limiter_duration :: nat

record worker =
  queue_name :: string
  concurrency :: nat
  limiter :: "rate_limit option"

definition checkSourceWorker :: worker where
  "checkSourceWorker =
     \<lparr>queue_name = CHECK_SOURCE_QUEUE,
      concurrency = 5,
      limiter = Some \<lparr>limiter_max = 10, limiter_duration = 1000\<rparr>\<rparr>"

definition notificationWorker :: worker where
  "notificationWorker =
     \<lparr>queue_name = NOTIFICATION_QUEUE,
      concurrency = 10,
      limiter = None\<rparr>"

subsection \<open>The worker process\<close>

text \<open>
  The module runs in one event loop. At load it prints a line, constructs the two
  workers, installs the signal handlers and calls \<open>startScheduler\<close>, which runs up to
  its first await; from then on the process reacts to events. The code between two awaits
  runs without interruption, so each async function is modelled by its segments: the code
  up to the first await and the code that resumes after each await.

  A timer made by \<open>setInterval\<close> keeps its interval and whether it has been cleared. Of a
  worker the process model keeps whether \<open>close()\<close> has been called on it, whether the
  promise of \<open>close()\<close> is fulfilled, and how many of its handlers are executing.
\<close>

record timeout =
  interval :: nat
  cleared :: bool

record worker_state =
  closing :: bool
  closed :: bool
  inflight :: nat

text \<open>
  The state of the process: the variable \<open>schedulerInterval\<close>, whether \<open>startScheduler\<close>
  is still awaiting its first run, the number of timer callbacks awaiting their run, the
  two workers, the Redis client, the number of \<open>shutdown\<close> invocations suspended at each
  of its two awaits, the effects so far, and the exit status once the process has exited.
\<close>

record process =
  schedulerInterval :: "timeout option"
  initial_run :: bool
  cycles :: nat
  workers :: "worker_id \<Rightarrow> worker_state"
  redis :: redis_client
  awaiting_close :: nat
  awaiting_quit :: nat
  effects :: "effect list"
  exited :: "nat option"

definition SCHEDULER_INTERVAL :: nat where
  "SCHEDULER_INTERVAL = 5 * 60 * 1000"

definition emit :: "effect list \<Rightarrow> process \<Rightarrow> process" where
  "emit fx s = s\<lparr>effects := effects s @ fx\<rparr>"

text \<open>
  The process once the module has been loaded: \<open>startScheduler\<close> has called
  \<open>runMasterScheduler\<close> and is awaiting it, no timer is set, the client has not connected
  yet (\<open>lazyConnect\<close>).
\<close>

definition worker_process :: process where
  "worker_process =
     \<lparr>schedulerInterval = None,
      initial_run = True,
      cycles = 0,
      workers = (\<lambda>w. \<lparr>closing = False, closed = False, inflight = 0\<rparr>),
      redis = \<lparr>status = Wait\<rparr>,
      awaiting_close = 0,
      awaiting_quit = 0,
      effects = [console_log Workers_Starting, runMasterScheduler, console_log Workers_Active],
      exited = None\<rparr>"

text \<open>
  \<open>startScheduler\<close> after its await: the catch block when the first run was rejected,
  then \<open>setInterval\<close>.
\<close>

definition startScheduler_resume :: "settled \<Rightarrow> process \<Rightarrow> process" where
  "startScheduler_resume r s =
     (let s1 = (case r of
                  Fulfilled \<Rightarrow> s
                | Rejected err \<Rightarrow> emit [console_error (Scheduler_Initial_run_failed err)] s)
      in emit [setInterval SCHEDULER_INTERVAL]
           (s1\<lparr>schedulerInterval := Some \<lparr>interval = SCHEDULER_INTERVAL, cleared = False\<rparr>,
               initial_run := False\<rparr>))"

text \<open>The callback of the timer, up to its await and after it.\<close>

definition timer_callback :: "process \<Rightarrow> process" where
  "timer_callback s = emit [runMasterScheduler] (s\<lparr>cycles := cycles s + 1\<rparr>)"

definition timer_callback_resume :: "settled \<Rightarrow> process \<Rightarrow> process" where
  "timer_callback_resume r s =
     (case r of
        Fulfilled \<Rightarrow> s\<lparr>cycles := cycles s - 1\<rparr>
      | Rejected err \<Rightarrow> emit [console_error (Scheduler_Error err)] (s\<lparr>cycles := cycles s - 1\<rparr>))"

text \<open>
  \<open>shutdown\<close> up to its first await: the line on the console, \<open>clearInterval\<close> when
  \<open>schedulerInterval\<close> is set, and the two calls of \<open>close()\<close>.
\<close>

definition close_worker :: "worker_id \<Rightarrow> process \<Rightarrow> process" where
  "close_worker w s =
     emit [worker_close w] (s\<lparr>workers := (workers s)(w := (workers s w)\<lparr>closing := True\<rparr>)\<rparr>)"

definition shutdown :: "signal \<Rightarrow> process \<Rightarrow> process" where
  "shutdown sig s =
     (let s1 = emit [console_log (Workers_Received sig)] s;
          s2 = (case schedulerInterval s1 of
                  None \<Rightarrow> s1
                | Some t \<Rightarrow>
                    emit [clearInterval] (s1\<lparr>schedulerInterval := Some (t\<lparr>cleared := True\<rparr>)\<rparr>));
          s3 = close_worker Notification (close_worker CheckSource s2)
      in s3\<lparr>awaiting_close := awaiting_close s3 + 1\<rparr>)"

text \<open>The end of \<open>shutdown\<close>, once \<open>disconnectRedis\<close> has returned.\<close>

definition shutdown_finish :: "process \<Rightarrow> process" where
  "shutdown_finish s =
     (emit [console_log Workers_Shutdown_complete, process_exit 0] s)\<lparr>exited := Some 0\<rparr>"

text \<open>
  \<open>Promise.all\<close> of the two \<open>close()\<close> promises is fulfilled when both are. Every
  \<open>shutdown\<close> suspended there then resumes and calls \<open>disconnectRedis\<close>: with the status
  end it returns at once, and the first invocation to resume ends the process; otherwise
  each invocation issues its \<open>quit()\<close> and is suspended again.
\<close>

definition workers_closed :: "process \<Rightarrow> bool" where
  "workers_closed s = (closed (workers s CheckSource) \<and> closed (workers s Notification))"

definition resume_shutdowns :: "process \<Rightarrow> process" where
  "resume_shutdowns s =
     (if workers_closed s \<and> 0 < awaiting_close s then
        (case disconnectRedis_call (redis s) of
           None \<Rightarrow> shutdown_finish (s\<lparr>awaiting_close := awaiting_close s - 1\<rparr>)
         | Some fx \<Rightarrow>
             emit (concat (replicate (awaiting_close s) fx))
               (s\<lparr>awaiting_quit := awaiting_quit s + awaiting_close s, awaiting_close := 0\<rparr>))
      else s)"

text \<open>
  A \<open>shutdown\<close> suspended in \<open>disconnectRedis\<close> resumes when its \<open>quit()\<close> settles: the
  rest of \<open>disconnectRedis\<close>, then the end of \<open>shutdown\<close>.
\<close>

definition shutdown_after_quit :: "settled \<Rightarrow> process \<Rightarrow> process" where
  "shutdown_after_quit q s =
     (let (fx, c) = disconnectRedis_resume q (redis s)
      in shutdown_finish (emit fx (s\<lparr>redis := c, awaiting_quit := awaiting_quit s - 1\<rparr>)))"

text \<open>
  The events of the process: a termination signal; the settlement of the first awaited
  run of the scheduler; a firing of the timer; the settlement of a run started by the
  timer; a worker starting a job, which a closing worker does not do; a handler finishing;
  the promise of \<open>close()\<close> of a worker being fulfilled, which happens only once the worker's
  handlers have finished (the source relies on it: close waits for current jobs to
  finish); the settlement of the oldest pending \<open>quit()\<close>; a change of the status of the
  connection. An event that cannot happen in a state leaves it unchanged. The workers
  are the library's: the model lets a worker start any number of jobs. Two things the
  module can do are outside the model: the lines its \<open>completed\<close> and \<open>failed\<close>
  listeners print when a job ends are not among the effects, and a rejection of
  \<open>close()\<close>, which \<open>shutdown\<close> does not catch, is not an event, so the exit of
  the model is always the \<open>process.exit(0)\<close> at the end of \<open>shutdown\<close>.
\<close>

datatype event =
    Signal signal
  | InitialRunSettled settled
  | TimerFired
  | CycleSettled settled
  | JobStarted worker_id
  | JobFinished worker_id
  | WorkerClosed worker_id
  | QuitSettled settled
  | RedisStatus redis_status

fun on_event :: "event \<Rightarrow> process \<Rightarrow> process" where
  "on_event (Signal sig) s = resume_shutdowns (shutdown sig s)"
| "on_event (InitialRunSettled r) s = (if initial_run s then startScheduler_resume r s else s)"
| "on_event TimerFired s =
     (case schedulerInterval s of
        None \<Rightarrow> s
      | Some t \<Rightarrow> if cleared t then s else timer_callback s)"
| "on_event (CycleSettled r) s = (if 0 < cycles s then timer_callback_resume r s else s)"
| "on_event (JobStarted w) s =
     (if closing (workers s w) then s
      else s\<lparr>workers := (workers s)(w := (workers s w)\<lparr>inflight := inflight (workers s w) + 1\<rparr>)\<rparr>)"
| "on_event (JobFinished w) s =
     (if 0 < inflight (workers s w)
      then s\<lparr>workers := (workers s)(w := (workers s w)\<lparr>inflight := inflight (workers s w) - 1\<rparr>)\<rparr>
      else s)"
| "on_event (WorkerClosed w) s =
     (if closing (workers s w) \<and> inflight (workers s w) = 0
      then resume_shutdowns (s\<lparr>workers := (workers s)(w := (workers s w)\<lparr>closed := True\<rparr>)\<rparr>)
      else s)"
| "on_event (QuitSettled q) s = (if 0 < awaiting_quit s then shutdown_after_quit q s else s)"
| "on_event (RedisStatus st) s = s\<lparr>redis := (redis s)\<lparr>status := st\<rparr>\<rparr>"

text \<open>After \<open>process.exit\<close> nothing runs.\<close>

definition step :: "process \<Rightarrow> event \<Rightarrow> process" where
  "step s ev = (if exited s = None then on_event ev s else s)"

definition run :: "process \<Rightarrow> event list \<Rightarrow> process" where
  "run = foldl step"

fun is_signal :: "event \<Rightarrow> bool" where
  "is_signal (Signal sig) = True"
| "is_signal ev = False"

fun is_received :: "effect \<Rightarrow> bool" where
  "is_received (console_log (Workers_Received sig)) = True"
| "is_received fx = False"

fun is_exit :: "effect \<Rightarrow> bool" where
  "is_exit (process_exit n) = True"
| "is_exit fx = False"

text \<open>
  What holds in every state the process reaches: a worker whose \<open>close()\<close> is fulfilled
  was asked to close and has no handler executing; a \<open>quit()\<close> or a forced disconnect
  has been issued only with both workers closed; the process has exited only from the end
  of \<open>shutdown\<close>, with both workers closed, and \<open>process.exit\<close> is the last effect
  and the only one of its kind.
\<close>

definition shutdown_invariant :: "process \<Rightarrow> bool" where
  "shutdown_invariant s =
     ((\<forall>w. closed (workers s w) \<longrightarrow> closing (workers s w) \<and> inflight (workers s w) = 0) \<and>
      (0 < awaiting_quit s \<longrightarrow> workers_closed s) \<and>
      (redis_quit \<in> set (effects s) \<longrightarrow> workers_closed s) \<and>
      (redis_disconnect \<in> set (effects s) \<longrightarrow> workers_closed s) \<and>
      (exited s = None \<longrightarrow> filter is_exit (effects s) = []) \<and>
      (exited s \<noteq> None \<longrightarrow>
         exited s = Some 0 \<and> workers_closed s \<and>
         filter is_exit (effects s) = [process_exit 0] \<and>
         (\<exists>pre. effects s = pre @ [console_log Workers_Shutdown_complete, process_exit 0])))"

text \<open>
  What one firing of the timer adds to the effects, given how the run it starts settles:
  the call of the routine, and the line of the catch block when the run was rejected.
\<close>

definition cycle_effects :: "settled \<Rightarrow> effect list" where
  "cycle_effects r =
     runMasterScheduler #
     (case r of Fulfilled \<Rightarrow> [] | Rejected err \<Rightarrow> [console_error (Scheduler_Error err)])"

text \<open>
  The scheduler is running: the first run has settled, the timer is set with the
  configured interval and has not been cleared, and no shutdown has been asked for.
\<close>

definition scheduler_running :: "process \<Rightarrow> bool" where
  "scheduler_running s =
     (exited s = None \<and> initial_run s = False \<and>
      schedulerInterval s = Some \<lparr>interval = SCHEDULER_INTERVAL, cleared = False\<rparr> \<and>
      awaiting_close s = 0 \<and> awaiting_quit s = 0 \<and>
      closing (workers s CheckSource) = False \<and> closing (workers s Notification) = False)"

section \<open>The queue library, from the spec\<close>

subsection \<open>The worker engine\<close>

text \<open>
  Modelled from the spec: the Worker Engine (the \<open>Worker\<close> class of the queue library,
  which the repository constructs but does not contain). The spec's section 4.2 gives it
  two guards on the claim path, evaluated in sequence: a semaphore of size C (a job is
  claimed only when a slot is free) and a rate limit (at most R job starts within a
  rolling window of duration W; claiming pauses while the window is full).

  The engine's state is its clock in milliseconds, the number of handlers executing and
  the start times of the jobs it has started, most recent first. Its events are the
  passing of time, an attempt to claim an available job, and the end of a handler (with
  no handler executing, the end of one changes nothing).
\<close>

record engine =
  now :: nat
  executing :: nat
  started :: "nat list"

datatype engine_event = Tick nat | Claim | Finish

definition engine0 :: engine where
  "engine0 = \<lparr>now = 0, executing = 0, started = []\<rparr>"

text \<open>
  Modelled from the spec: the concurrency limit, a semaphore of size C; a new job is
  claimed only when a slot is free.
\<close>

definition slot_free :: "worker \<Rightarrow> engine \<Rightarrow> bool" where
  "slot_free w e = (executing e < concurrency w)"

text \<open>
  Modelled from the spec: the rate limit, at most R job starts within a rolling window
  of duration W. The window is the one that ends now: a start at \<open>s\<close> is in it when
  \<open>now < s + W\<close>.
\<close>

definition limiter_permits :: "worker \<Rightarrow> engine \<Rightarrow> bool" where
  "limiter_permits w e =
     (case limiter w of
        None \<Rightarrow> True
      | Some l \<Rightarrow>
          length (filter (\<lambda>s. now e < s + limiter_duration l) (started e)) < limiter_max l)"

text \<open>
  Modelled from the spec: both guards must permit a start; while one does not, claiming
  pauses and the state is unchanged.
\<close>

fun engine_step :: "worker \<Rightarrow> engine \<Rightarrow> engine_event \<Rightarrow> engine" where
  "engine_step w e (Tick d) = e\<lparr>now := now e + d\<rparr>"
| "engine_step w e Claim =
     (if slot_free w e then
        (if limiter_permits w e
         then e\<lparr>executing := executing e + 1, started := now e # started e\<rparr>
         else e)
      else e)"
| "engine_step w e Finish = e\<lparr>executing := executing e - 1\<rparr>"

definition engine_run :: "worker \<Rightarrow> engine \<Rightarrow> engine_event list \<Rightarrow> engine" where
  "engine_run w = foldl (engine_step w)"

text \<open>The number of job starts in the window of duration \<open>W\<close> that begins at \<open>t\<close>.\<close>

definition starts_in_window :: "nat \<Rightarrow> nat \<Rightarrow> nat list \<Rightarrow> nat" where
  "starts_in_window t W ts = length (filter (\<lambda>s. t \<le> s \<and> s < t + W) ts)"

subsection \<open>Retries of a failed job\<close>

text \<open>
  Modelled from the spec: the execution protocol for one claimed job (section 4.2,
  steps 2 and 3), which the queue library and the store carry out. On success the job is
  completed. On failure the store increments \<open>attempts_made\<close>; if it is still below
  \<open>max_attempts\<close> the job is queued again after the delay of its backoff policy
  (exponential: base * 2 ^ (attempts_made - 1), capped by a ceiling the implementation
  chooses, \<open>None\<close> for no ceiling), otherwise the job is failed.
\<close>

datatype job_state = waiting | active | completed | failed

record job =
  attempts_made :: nat
  max_attempts :: nat
  backoff_policy :: backoff_options
  state :: job_state

definition enqueue :: "queue \<Rightarrow> job" where
  "enqueue q =
     \<lparr>attempts_made = 0,
      max_attempts = attempts (defaultJobOptions q),
      backoff_policy = backoff (defaultJobOptions q),
      state = waiting\<rparr>"

text \<open>
  Modelled from the spec: the delay of a backoff policy after \<open>n\<close> failed attempts
  (\<open>n\<close> is at least 1 where \<open>report\<close> calls it).
\<close>

definition capped :: "nat option \<Rightarrow> nat \<Rightarrow> nat" where
  "capped cap d = (case cap of None \<Rightarrow> d | Some c \<Rightarrow> min c d)"

definition under_cap :: "nat option \<Rightarrow> nat \<Rightarrow> bool" where
  "under_cap cap d = (case cap of None \<Rightarrow> True | Some c \<Rightarrow> d \<le> c)"

definition backoff_delay :: "nat option \<Rightarrow> backoff_options \<Rightarrow> nat \<Rightarrow> nat" where
  "backoff_delay cap b n =
     capped cap (case type b of fixed \<Rightarrow> delay b | exponential \<Rightarrow> delay b * 2 ^ (n - 1))"

text \<open>
  Modelled from the spec: \<open>report\<close> is what the store does with the outcome of one handler invocation
  (\<open>True\<close> for success); its second component is the delay before the next attempt,
  when there is one.
\<close>

definition report :: "nat option \<Rightarrow> bool \<Rightarrow> job \<Rightarrow> job \<times> nat option" where
  "report cap ok j =
     (if ok then (j\<lparr>state := completed\<rparr>, None)
      else (let n = attempts_made j + 1 in
            if n < max_attempts j
            then (j\<lparr>attempts_made := n, state := waiting\<rparr>,
                  Some (backoff_delay cap (backoff_policy j) n))
            else (j\<lparr>attempts_made := n, state := failed\<rparr>, None)))"

text \<open>
  Modelled from the spec: \<open>run_job\<close> runs a waiting job through the outcomes of its successive handler
  invocations; it returns the job and the delays it waited between the attempts.
\<close>

fun run_job :: "nat option \<Rightarrow> job \<Rightarrow> bool list \<Rightarrow> job \<times> nat list" where
  "run_job cap j [] = (j, [])"
| "run_job cap j (ok # oks) =
     (if state j = waiting then
        (let (j', d) = report cap ok (j\<lparr>state := active\<rparr>);
             (j'', ds) = run_job cap j' oks
         in (j'', (case d of None \<Rightarrow> [] | Some x \<Rightarrow> [x]) @ ds))
      else (j, []))"

section \<open>Theorems\<close>

subsection \<open>Queue handles\<close>

text \<open>
  C7. The two queue handles carry fixed default job options: the critical queue
  (notifications) has 5 attempts and exponential backoff with a base delay of 1000 ms,
  the best-effort queue (check-source) has 3 attempts and exponential backoff with a base
  delay of 5000 ms.
\<close>

theorem queue_default_job_options:
  "attempts (defaultJobOptions notificationQueue) = 5 \<and>
   backoff (defaultJobOptions notificationQueue) = \<lparr>type = exponential, delay = 1000\<rparr> \<and>
   attempts (defaultJobOptions checkSourceQueue) = 3 \<and>
   backoff (defaultJobOptions checkSourceQueue) = \<lparr>type = exponential, delay = 5000\<rparr> \<and>
   name notificationQueue = ''notifications'' \<and> name checkSourceQueue = ''check-source''"
  by (simp add: notificationQueue_def checkSourceQueue_def NOTIFICATION_QUEUE_def
      CHECK_SOURCE_QUEUE_def)

subsection \<open>The Redis connection\<close>

lemma retryStrategy_delay:
  "n \<le> 20 \<Longrightarrow> retryStrategy n = ([], Some (min (n * 200) 5000))"
  by (simp add: retryStrategy_def)

lemma retryStrategy_gives_up:
  "20 < n \<Longrightarrow> retryStrategy n = ([console_error (Redis_Giving_up n)], None)"
  by (simp add: retryStrategy_def)

lemma retryStrategy_below_cap:
  "n \<le> 20 \<Longrightarrow> snd (retryStrategy n) = Some (n * 200)"
  by (simp add: retryStrategy_def)

text \<open>
  C2. The delays of the first reconnection attempts are 200, 400, 600 and 800 ms: they
  grow by a constant 200 ms per attempt, where the comment on that line of the source
  announces an exponential backoff, and no law \<open>b * r ^ (t - 1)\<close>, with real \<open>b\<close> and
  \<open>r\<close>, fits the first three of them. The largest delay is 4000 ms, at attempt 20;
  from attempt 21 on the strategy returns no delay.
\<close>

theorem retryStrategy_linear_not_exponential:
  "snd (retryStrategy 1) = Some 200 \<and> snd (retryStrategy 2) = Some 400 \<and>
   snd (retryStrategy 3) = Some 600 \<and> snd (retryStrategy 4) = Some 800 \<and>
   snd (retryStrategy 20) = Some 4000 \<and> snd (retryStrategy 21) = None \<and>
   \<not> (\<exists>b r :: real.
         map_option real_of_int (snd (retryStrategy 1)) = Some (b * r ^ 0) \<and>
         map_option real_of_int (snd (retryStrategy 2)) = Some (b * r ^ 1) \<and>
         map_option real_of_int (snd (retryStrategy 3)) = Some (b * r ^ 2))"
proof -
  have v: "snd (retryStrategy 1) = Some 200" "snd (retryStrategy 2) = Some 400"
    "snd (retryStrategy 3) = Some 600" "snd (retryStrategy 4) = Some 800"
    "snd (retryStrategy 20) = Some 4000" "snd (retryStrategy 21) = None"
    by (simp_all add: retryStrategy_def)
  have "\<not> (200 = b * r ^ 0 \<and> 400 = b * r ^ 1 \<and> 600 = b * r ^ 2)" for b r :: real
  proof
    assume h: "200 = b * r ^ 0 \<and> 400 = b * r ^ 1 \<and> 600 = b * r ^ 2"
    then have b: "b = 200" by simp
    with h have r: "r = 2" by simp
    from h [THEN conjunct2, THEN conjunct2] show False
      unfolding b r by simp
  qed
  with v show ?thesis by simp
qed

text \<open>
  C8. When the graceful \<open>quit()\<close> is rejected, \<open>disconnectRedis\<close> logs the error, forces
  the disconnect and returns normally, with the connection ended; and a shutdown that was
  waiting for that \<open>quit()\<close> goes on to its end: the process exits with status 0.
\<close>

theorem disconnectRedis_quit_fails:
  "(status c \<noteq> End \<longrightarrow>
      disconnectRedis (Rejected err) c =
        (Inr (),
         [redis_quit, console_error (Redis_Error_during_disconnect err), redis_disconnect],
         c\<lparr>status := End\<rparr>)) \<and>
   (exited s = None \<and> 0 < awaiting_quit s \<longrightarrow>
      exited (step s (QuitSettled (Rejected err))) = Some 0 \<and>
      effects (step s (QuitSettled (Rejected err))) =
        effects s @
        [console_error (Redis_Error_during_disconnect err), redis_disconnect,
         console_log Workers_Shutdown_complete, process_exit 0])"
proof -
  have call: "disconnectRedis (Rejected err) c =
        (Inr (),
         [redis_quit, console_error (Redis_Error_during_disconnect err), redis_disconnect],
         c\<lparr>status := End\<rparr>)"
    if "status c \<noteq> End"
    using that
    by (simp add: disconnectRedis_def disconnectRedis_call_def disconnectRedis_resume_def
        disconnect_def)
  have resume: "exited (step s (QuitSettled (Rejected err))) = Some 0 \<and>
      effects (step s (QuitSettled (Rejected err))) =
        effects s @
        [console_error (Redis_Error_during_disconnect err), redis_disconnect,
         console_log Workers_Shutdown_complete, process_exit 0]"
    if "exited s = None" "0 < awaiting_quit s"
    using that
    by (simp add: step_def shutdown_after_quit_def disconnectRedis_resume_def shutdown_finish_def
        emit_def)
  from call resume show ?thesis by blast
qed

theorem disconnectRedis_quit_fails_witness:
  "status \<lparr>status = Ready\<rparr> \<noteq> End \<and>
   disconnectRedis (Rejected ''Connection is closed.'') \<lparr>status = Ready\<rparr> =
     (Inr (), [redis_quit, console_error (Redis_Error_during_disconnect ''Connection is closed.''),
               redis_disconnect],
      \<lparr>status = End\<rparr>) \<and>
   exited (run worker_process
     [Signal SIGTERM, WorkerClosed CheckSource, WorkerClosed Notification]) = None \<and>
   0 < awaiting_quit (run worker_process
     [Signal SIGTERM, WorkerClosed CheckSource, WorkerClosed Notification]) \<and>
   exited (step (run worker_process
     [Signal SIGTERM, WorkerClosed CheckSource, WorkerClosed Notification])
     (QuitSettled (Rejected ''Connection is closed.''))) = Some 0"
proof -
  let ?s = "run worker_process [Signal SIGTERM, WorkerClosed CheckSource, WorkerClosed Notification]"
  have pre: "exited ?s = None \<and> 0 < awaiting_quit ?s"
    by (simp add: run_def step_def worker_process_def emit_def close_worker_def shutdown_def
        workers_closed_def resume_shutdowns_def disconnectRedis_call_def)
  with disconnectRedis_quit_fails
    [of "\<lparr>status = Ready\<rparr>" "''Connection is closed.''" ?s]
  show ?thesis by simp
qed

text \<open>
  C9, as stated, fails: \<open>disconnectRedis\<close> assigns no status, so when it is called a
  second time after a call whose \<open>quit()\<close> was fulfilled, with the client still
  reporting ready, it issues \<open>quit()\<close> again.
\<close>

theorem second_disconnect_counterexample:
  "disconnectRedis Fulfilled \<lparr>status = Ready\<rparr> =
     (Inr (), [redis_quit, console_log Redis_Disconnected], \<lparr>status = Ready\<rparr>) \<and>
   fst (snd (disconnectRedis Fulfilled
     (snd (snd (disconnectRedis Fulfilled \<lparr>status = Ready\<rparr>))))) =
     [redis_quit, console_log Redis_Disconnected]"
  by (simp add: disconnectRedis_def disconnectRedis_call_def disconnectRedis_resume_def)

text \<open>
  C9, amended. \<open>disconnectRedis\<close> never rejects, whatever \<open>quit()\<close> does; with the
  status end, and only then, it returns at once without any call to the client, so a
  second call does nothing once the status is end; with any other status it issues
  \<open>quit()\<close>, and a rejected \<open>quit()\<close> is logged and followed by the forced disconnect;
  after a fulfilled \<open>quit()\<close> it leaves the status as it found it.
\<close>

theorem disconnectRedis_never_rejects:
  "fst (disconnectRedis q c) = Inr () \<and>
   (status c = End \<longrightarrow> disconnectRedis q c = (Inr (), [], c)) \<and>
   (status c \<noteq> End \<longrightarrow>
      fst (snd (disconnectRedis q c)) =
        redis_quit #
        (case q of
           Fulfilled \<Rightarrow> [console_log Redis_Disconnected]
         | Rejected err \<Rightarrow>
             [console_error (Redis_Error_during_disconnect err), redis_disconnect])) \<and>
   snd (snd (disconnectRedis Fulfilled c)) = c"
proof (cases "status c = End")
  case True
  then show ?thesis
    by (simp add: disconnectRedis_def disconnectRedis_call_def)
next
  case False
  then show ?thesis
    by (cases q)
      (simp_all add: disconnectRedis_def disconnectRedis_call_def disconnectRedis_resume_def)
qed

theorem disconnectRedis_never_rejects_witness:
  "status \<lparr>status = End\<rparr> = End \<and>
   disconnectRedis Fulfilled \<lparr>status = End\<rparr> = (Inr (), [], \<lparr>status = End\<rparr>) \<and>
   status \<lparr>status = Ready\<rparr> \<noteq> End \<and>
   fst (disconnectRedis (Rejected ''ECONNRESET'') \<lparr>status = Ready\<rparr>) = Inr () \<and>
   fst (snd (disconnectRedis (Rejected ''ECONNRESET'') \<lparr>status = Ready\<rparr>)) =
     [redis_quit, console_error (Redis_Error_during_disconnect ''ECONNRESET''),
      redis_disconnect]"
  using disconnectRedis_never_rejects [of "Rejected ''ECONNRESET''" "\<lparr>status = Ready\<rparr>"]
    disconnectRedis_never_rejects [of Fulfilled "\<lparr>status = End\<rparr>"]
  by simp

subsection \<open>The worker engine\<close>

lemma length_filter_mono:
  "(\<And>x. x \<in> set xs \<Longrightarrow> P x \<Longrightarrow> Q x) \<Longrightarrow> length (filter P xs) \<le> length (filter Q xs)"
  by (induction xs) auto

lemma engine_run_snoc: "engine_run w e (evs @ [ev]) = engine_step w (engine_run w e evs) ev"
  by (simp add: engine_run_def)

lemma engine_step_executing:
  "executing e \<le> concurrency w \<Longrightarrow> executing (engine_step w e ev) \<le> concurrency w"
  by (cases ev) (auto simp: slot_free_def)

lemma engine_run_executing:
  "executing e \<le> concurrency w \<Longrightarrow> executing (engine_run w e evs) \<le> concurrency w"
proof (induction evs rule: rev_induct)
  case Nil
  then show ?case by (simp add: engine_run_def)
next
  case (snoc ev evs)
  then show ?case by (simp add: engine_run_snoc engine_step_executing)
qed

text \<open>
  A start is let through only when fewer than \<open>limiter_max\<close> starts lie in the window
  that ends now; every start of a window that contains now lies in that window too.
\<close>

lemma engine_step_window:
  assumes lim: "limiter w = Some l"
    and inv: "\<And>t. starts_in_window t (limiter_duration l) (started e) \<le> limiter_max l"
  shows "starts_in_window t (limiter_duration l) (started (engine_step w e ev)) \<le> limiter_max l"
proof (cases ev)
  case (Tick d)
  then show ?thesis using inv by simp
next
  case Finish
  then show ?thesis using inv by simp
next
  case Claim
  show ?thesis
  proof (cases "slot_free w e \<and> limiter_permits w e")
    case False
    with Claim show ?thesis using inv by auto
  next
    case True
    then have room:
      "length (filter (\<lambda>s. now e < s + limiter_duration l) (started e)) < limiter_max l"
      by (simp add: limiter_permits_def lim)
    show ?thesis
    proof (cases "t \<le> now e \<and> now e < t + limiter_duration l")
      case False
      with Claim True show ?thesis using inv [of t] by (auto simp: starts_in_window_def)
    next
      case inwin: True
      have "length (filter (\<lambda>s. t \<le> s \<and> s < t + limiter_duration l) (started e))
            \<le> length (filter (\<lambda>s. now e < s + limiter_duration l) (started e))"
        using inwin by (intro length_filter_mono) auto
      with room Claim True inwin show ?thesis by (auto simp: starts_in_window_def)
    qed
  qed
qed

lemma engine_run_window:
  assumes lim: "limiter w = Some l"
  shows "starts_in_window t (limiter_duration l) (started (engine_run w engine0 evs))
         \<le> limiter_max l"
proof (induction evs arbitrary: t rule: rev_induct)
  case Nil
  then show ?case by (simp add: engine_run_def engine0_def starts_in_window_def)
next
  case (snoc ev evs)
  then show ?case by (simp add: engine_run_snoc engine_step_window [OF lim])
qed

text \<open>
  C4. After any sequence of events of the check-source engine (concurrency 5, limiter
  10 per 1000 ms), at most 5 handlers are executing and every window of 1000 ms, wherever
  it begins, holds at most 10 job starts. Of 100 jobs available at once, 5 are started.
\<close>

theorem checkSourceWorker_limits:
  "executing (engine_run checkSourceWorker engine0 evs) \<le> 5 \<and>
   starts_in_window t 1000 (started (engine_run checkSourceWorker engine0 evs)) \<le> 10 \<and>
   started (engine_run checkSourceWorker engine0 (replicate 100 Claim)) = replicate 5 0"
proof -
  have "executing engine0 \<le> concurrency checkSourceWorker"
    by (simp add: engine0_def)
  then have "executing (engine_run checkSourceWorker engine0 evs) \<le> concurrency checkSourceWorker"
    by (rule engine_run_executing)
  then have c: "executing (engine_run checkSourceWorker engine0 evs) \<le> 5"
    by (simp add: checkSourceWorker_def)
  have "limiter checkSourceWorker = Some \<lparr>limiter_max = 10, limiter_duration = 1000\<rparr>"
    by (simp add: checkSourceWorker_def)
  from engine_run_window [OF this, of t evs]
  have r: "starts_in_window t 1000 (started (engine_run checkSourceWorker engine0 evs)) \<le> 10"
    by simp
  have b: "started (engine_run checkSourceWorker engine0 (replicate 100 Claim)) = replicate 5 0"
    by code_simp
  from c r b show ?thesis by simp
qed

lemma notification_claim_finish:
  "executing e = 0 \<Longrightarrow>
   engine_run notificationWorker e [Claim, Finish] = e\<lparr>started := now e # started e\<rparr>"
  by (simp add: engine_run_def slot_free_def limiter_permits_def notificationWorker_def)

lemma notification_burst:
  "executing e = 0 \<Longrightarrow>
   engine_run notificationWorker e (concat (replicate n [Claim, Finish])) =
     e\<lparr>started := replicate n (now e) @ started e\<rparr>"
proof (induction n arbitrary: e)
  case 0
  then show ?case by (simp add: engine_run_def)
next
  case (Suc n)
  have "engine_run notificationWorker e (concat (replicate (Suc n) [Claim, Finish])) =
        engine_run notificationWorker (engine_run notificationWorker e [Claim, Finish])
          (concat (replicate n [Claim, Finish]))"
    by (simp add: engine_run_def)
  also have "\<dots> = engine_run notificationWorker (e\<lparr>started := now e # started e\<rparr>)
          (concat (replicate n [Claim, Finish]))"
    using Suc.prems by (simp add: notification_claim_finish)
  also have "\<dots> = e\<lparr>started := replicate (Suc n) (now e) @ started e\<rparr>"
    using Suc.prems by (simp add: Suc.IH replicate_app_Cons_same)
  finally show ?case .
qed

lemma notification_unbounded:
  assumes "0 < W"
  shows "\<exists>evs. R < starts_in_window 0 W (started (engine_run notificationWorker engine0 evs))"
proof -
  have "started (engine_run notificationWorker engine0 (concat (replicate (Suc R) [Claim, Finish])))
        = replicate (Suc R) 0"
  proof -
    have "executing engine0 = 0" by (simp add: engine0_def)
    from notification_burst [OF this, of "Suc R"] show ?thesis
      by (simp add: engine0_def del: replicate_Suc concat.simps)
  qed
  then have "starts_in_window 0 W
      (started (engine_run notificationWorker engine0 (concat (replicate (Suc R) [Claim, Finish]))))
      = Suc R"
    using assms by (simp add: starts_in_window_def)
  then show ?thesis by (metis lessI)
qed

text \<open>
  C10. The notification worker is constructed with concurrency 10 and without a limiter;
  the check-source worker is the one with a limiter. The notification engine never has
  more than 10 handlers executing, and for every window duration \<open>W\<close> and every bound
  \<open>R\<close> it has a run with more than \<open>R\<close> job starts inside one window of duration \<open>W\<close>.
\<close>

theorem notificationWorker_no_rate_limit:
  "concurrency notificationWorker = 10 \<and> limiter notificationWorker = None \<and>
   limiter checkSourceWorker = Some \<lparr>limiter_max = 10, limiter_duration = 1000\<rparr> \<and>
   executing (engine_run notificationWorker engine0 evs) \<le> 10 \<and>
   (0 < W \<longrightarrow>
      (\<exists>evs'. R < starts_in_window 0 W (started (engine_run notificationWorker engine0 evs'))))"
proof -
  have "executing engine0 \<le> concurrency notificationWorker"
    by (simp add: engine0_def)
  then have "executing (engine_run notificationWorker engine0 evs) \<le> concurrency notificationWorker"
    by (rule engine_run_executing)
  then have "executing (engine_run notificationWorker engine0 evs) \<le> 10"
    by (simp add: notificationWorker_def)
  then show ?thesis
    using notification_unbounded [of W R]
    by (simp add: notificationWorker_def checkSourceWorker_def)
qed

theorem notificationWorker_no_rate_limit_witness:
  "(0::nat) < 1000 \<and>
   (\<exists>evs'. 10 < starts_in_window 0 1000 (started (engine_run notificationWorker engine0 evs')))"
  using notificationWorker_no_rate_limit [of "[]" 1000 10] by simp

subsection \<open>Retries of a failed job\<close>

lemma under_cap_mono: "under_cap cap d \<Longrightarrow> d' \<le> d \<Longrightarrow> under_cap cap d'"
  by (auto simp: under_cap_def split: option.splits)

lemma capped_under_cap: "under_cap cap d \<Longrightarrow> capped cap d = d"
  by (auto simp: under_cap_def capped_def split: option.splits)

lemma report_failure:
  assumes "type (backoff_policy j) = exponential"
    and "Suc (attempts_made j) < max_attempts j"
    and "under_cap cap (delay (backoff_policy j) * 2 ^ attempts_made j)"
  shows "report cap False j =
     (j\<lparr>attempts_made := Suc (attempts_made j), state := waiting\<rparr>,
      Some (delay (backoff_policy j) * 2 ^ attempts_made j))"
  using assms by (simp add: report_def backoff_delay_def capped_under_cap Let_def)

lemma run_job_failures:
  assumes "type (backoff_policy j) = exponential" and "state j = waiting"
    and "attempts_made j + m < max_attempts j"
    and "under_cap cap (delay (backoff_policy j) * 2 ^ (attempts_made j + m - 1))"
  shows "snd (run_job cap j (replicate m False)) =
     map (\<lambda>n. delay (backoff_policy j) * 2 ^ (n - 1))
       [Suc (attempts_made j)..<Suc (attempts_made j + m)]"
  using assms
proof (induction m arbitrary: j)
  case 0
  then show ?case by simp
next
  case (Suc m)
  let ?a = "attempts_made j" and ?b = "delay (backoff_policy j)"
  let ?j' = "j\<lparr>state := active, attempts_made := Suc ?a, state := waiting\<rparr>"
  have "?b * 2 ^ ?a \<le> ?b * 2 ^ (?a + Suc m - 1)" by simp
  with Suc.prems(4) have cap: "under_cap cap (?b * 2 ^ ?a)"
    by (rule under_cap_mono)
  have rep: "report cap False (j\<lparr>state := active\<rparr>) = (?j', Some (?b * 2 ^ ?a))"
    using Suc.prems(1,3) cap report_failure [of "j\<lparr>state := active\<rparr>" cap] by simp
  have ih: "snd (run_job cap ?j' (replicate m False)) =
     map (\<lambda>n. ?b * 2 ^ (n - 1)) [Suc (Suc ?a)..<Suc (Suc ?a + m)]"
  proof -
    have p1: "type (backoff_policy ?j') = exponential" using Suc.prems(1) by simp
    have p2: "state ?j' = waiting" by simp
    have p3: "attempts_made ?j' + m < max_attempts ?j'" using Suc.prems(3) by simp
    have p4: "under_cap cap (delay (backoff_policy ?j') * 2 ^ (attempts_made ?j' + m - 1))"
      using Suc.prems(4) by simp
    from Suc.IH [OF p1 p2 p3 p4] show ?thesis by simp
  qed
  have "snd (run_job cap j (replicate (Suc m) False)) =
        ?b * 2 ^ ?a # snd (run_job cap ?j' (replicate m False))"
    using Suc.prems(2) rep by (simp add: split_beta)
  also have "\<dots> = map (\<lambda>n. ?b * 2 ^ (n - 1)) [Suc ?a..<Suc (?a + Suc m)]"
    by (simp only: ih) (simp add: upt_conv_Cons del: upt_Suc)
  finally show ?case .
qed

lemma notifications_scenario:
  "under_cap cap 8000 \<Longrightarrow>
   run_job cap (enqueue notificationQueue) [False, False, False, False, True] =
     (\<lparr>attempts_made = 4, max_attempts = 5,
       backoff_policy = \<lparr>type = exponential, delay = 1000\<rparr>, state = completed\<rparr>,
      [1000, 2000, 4000, 8000])"
  by (auto simp: enqueue_def notificationQueue_def report_def backoff_delay_def capped_def
      under_cap_def Let_def split: option.splits)

text \<open>
  C5. A new job with an exponential backoff policy of base \<open>b\<close> whose first \<open>i\<close>
  attempts fail, with attempts left, waits \<open>b * 2 ^ (n - 1)\<close> after its \<open>n\<close>-th failed
  attempt, for n from 1 to \<open>i\<close>, as long as the ceiling does not cut the delay. A job of
  the notifications queue (5 attempts, base 1000 ms) that fails four times and then
  succeeds waits 1000, 2000, 4000 and 8000 ms, 15000 ms in all, and ends completed.
\<close>

theorem exponential_backoff_delays:
  "(type (backoff_policy j) = exponential \<and> state j = waiting \<and> attempts_made j = 0 \<and>
    i < max_attempts j \<and> under_cap cap (delay (backoff_policy j) * 2 ^ (i - 1)) \<longrightarrow>
      snd (run_job cap j (replicate i False)) =
        map (\<lambda>n. delay (backoff_policy j) * 2 ^ (n - 1)) [1..<Suc i]) \<and>
   (under_cap cap 8000 \<longrightarrow>
      snd (run_job cap (enqueue notificationQueue) [False, False, False, False, True]) =
        [1000, 2000, 4000, 8000] \<and>
      sum_list (snd (run_job cap (enqueue notificationQueue) [False, False, False, False, True])) =
        15000 \<and>
      state (fst (run_job cap (enqueue notificationQueue) [False, False, False, False, True])) =
        completed)"
proof -
  have general: "snd (run_job cap j (replicate i False)) =
        map (\<lambda>n. delay (backoff_policy j) * 2 ^ (n - 1)) [1..<Suc i]"
    if "type (backoff_policy j) = exponential" "state j = waiting" "attempts_made j = 0"
      "i < max_attempts j" "under_cap cap (delay (backoff_policy j) * 2 ^ (i - 1))"
    using run_job_failures [of j i cap] that by simp
  have scenario:
    "snd (run_job cap (enqueue notificationQueue) [False, False, False, False, True]) =
       [1000, 2000, 4000, 8000] \<and>
     sum_list (snd (run_job cap (enqueue notificationQueue) [False, False, False, False, True])) =
       15000 \<and>
     state (fst (run_job cap (enqueue notificationQueue) [False, False, False, False, True])) =
       completed"
    if "under_cap cap 8000"
    by (simp only: notifications_scenario [OF that]) simp
  from general scenario show ?thesis by blast
qed

theorem exponential_backoff_delays_witness:
  "snd (run_job None (enqueue notificationQueue) (replicate 4 False)) =
     map (\<lambda>n. 1000 * 2 ^ (n - 1)) [1..<5] \<and>
   snd (run_job (Some 10000) (enqueue notificationQueue) [False, False, False, False, True]) =
     [1000, 2000, 4000, 8000] \<and>
   sum_list (snd (run_job (Some 10000) (enqueue notificationQueue)
     [False, False, False, False, True])) = 15000 \<and>
   state (fst (run_job (Some 10000) (enqueue notificationQueue)
     [False, False, False, False, True])) = completed"
  using exponential_backoff_delays [of "enqueue notificationQueue" 4 None]
    exponential_backoff_delays [of "enqueue notificationQueue" 4 "Some 10000"]
  by (simp add: enqueue_def notificationQueue_def under_cap_def)

subsection \<open>The worker process\<close>

lemmas segments = emit_def startScheduler_resume_def timer_callback_def timer_callback_resume_def
  close_worker_def shutdown_def shutdown_finish_def workers_closed_def resume_shutdowns_def
  shutdown_after_quit_def disconnectRedis_call_def disconnectRedis_resume_def disconnect_def

lemma run_Nil: "run s [] = s"
  by (simp add: run_def)

lemma run_Cons: "run s (ev # evs) = run (step s ev) evs"
  by (simp add: run_def)

lemma run_snoc: "run s (evs @ [ev]) = step (run s evs) ev"
  by (simp add: run_def)

lemma run_append: "run s (xs @ ys) = run (run s xs) ys"
  by (simp add: run_def)

lemma step_exited: "exited s \<noteq> None \<Longrightarrow> step s ev = s"
  by (auto simp: step_def)

lemma step_not_exited: "exited (step s ev) = None \<Longrightarrow> exited s = None"
  by (cases "exited s") (simp_all add: step_def)

lemma run_not_exited: "exited (run s (evs @ [ev])) = None \<Longrightarrow> exited (run s evs) = None"
  by (simp add: run_snoc step_not_exited)

lemma shutdown_invariant_on_event:
  assumes "shutdown_invariant s" and "exited s = None"
  shows "shutdown_invariant (on_event ev s)"
proof (cases ev)
  case (Signal sig)
  with assms show ?thesis
    by (auto simp: shutdown_invariant_def segments Let_def split: option.splits if_splits)
next
  case (InitialRunSettled r)
  with assms show ?thesis
    by (auto simp: shutdown_invariant_def segments Let_def split: settled.splits)
next
  case TimerFired
  with assms show ?thesis
    by (auto simp: shutdown_invariant_def segments split: option.splits)
next
  case (CycleSettled r)
  with assms show ?thesis
    by (auto simp: shutdown_invariant_def segments split: settled.splits)
next
  case (JobStarted w)
  with assms show ?thesis
    by (auto simp: shutdown_invariant_def workers_closed_def)
next
  case (JobFinished w)
  with assms show ?thesis
    by (auto simp: shutdown_invariant_def workers_closed_def)
next
  case (WorkerClosed w)
  with assms show ?thesis
    by (auto simp: shutdown_invariant_def segments split: if_splits)
next
  case (QuitSettled q)
  with assms show ?thesis
    by (auto simp: shutdown_invariant_def segments split: settled.splits)
next
  case (RedisStatus st)
  with assms show ?thesis
    by (auto simp: shutdown_invariant_def workers_closed_def)
qed

lemma shutdown_invariant_step: "shutdown_invariant s \<Longrightarrow> shutdown_invariant (step s ev)"
  by (cases "exited s") (simp_all add: step_def shutdown_invariant_on_event)

lemma shutdown_invariant_run: "shutdown_invariant (run worker_process evs)"
proof (induction evs rule: rev_induct)
  case Nil
  show ?case
    by (simp add: run_Nil shutdown_invariant_def worker_process_def workers_closed_def)
next
  case (snoc ev evs)
  then show ?case by (simp add: run_snoc shutdown_invariant_step)
qed

text \<open>
  As long as the process has not exited, an event adds a shutdown sequence, with its
  line on the console, exactly when it is a signal.
\<close>

lemma signals_on_event:
  assumes "exited s = None" and "exited (on_event ev s) = None"
  shows "length (filter is_received (effects (on_event ev s))) =
           length (filter is_received (effects s)) + (if is_signal ev then 1 else 0) \<and>
         awaiting_close (on_event ev s) + awaiting_quit (on_event ev s) =
           awaiting_close s + awaiting_quit s + (if is_signal ev then 1 else 0)"
proof (cases ev)
  case (Signal sig)
  with assms show ?thesis
    by (auto simp: segments Let_def split: option.splits if_splits)
next
  case (InitialRunSettled r)
  with assms show ?thesis by (auto simp: segments Let_def split: settled.splits)
next
  case TimerFired
  with assms show ?thesis by (auto simp: segments split: option.splits)
next
  case (CycleSettled r)
  with assms show ?thesis by (auto simp: segments split: settled.splits)
next
  case (JobStarted w)
  with assms show ?thesis by auto
next
  case (JobFinished w)
  with assms show ?thesis by auto
next
  case (WorkerClosed w)
  with assms show ?thesis by (auto simp: segments split: if_splits)
next
  case (QuitSettled q)
  with assms show ?thesis by (auto simp: segments split: settled.splits if_splits)
next
  case (RedisStatus st)
  with assms show ?thesis by auto
qed

lemma signals_run:
  "exited (run worker_process evs) = None \<Longrightarrow>
   length (filter is_received (effects (run worker_process evs))) = length (filter is_signal evs) \<and>
   awaiting_close (run worker_process evs) + awaiting_quit (run worker_process evs) =
     length (filter is_signal evs)"
proof (induction evs rule: rev_induct)
  case Nil
  show ?case by (simp add: run_Nil worker_process_def)
next
  case (snoc ev evs)
  from snoc.prems have live: "exited (run worker_process evs) = None"
    by (rule run_not_exited)
  from snoc.prems live have "exited (on_event ev (run worker_process evs)) = None"
    by (simp add: run_snoc step_def)
  from signals_on_event [OF live this] snoc.IH [OF live] live show ?case
    by (simp add: run_snoc step_def)
qed

lemma exit_once: "length (filter is_exit (effects (run worker_process evs))) \<le> 1"
  using shutdown_invariant_run [of evs]
  by (cases "exited (run worker_process evs)") (auto simp: shutdown_invariant_def)

text \<open>
  C1, as stated, fails: a SIGINT received while the shutdown started by a SIGTERM is
  still waiting for the workers starts a second shutdown sequence; both are then
  suspended at the same await.
\<close>

theorem second_signal_counterexample:
  "awaiting_close (run worker_process [InitialRunSettled Fulfilled, Signal SIGTERM, Signal SIGINT])
     = 2 \<and>
   \<not> length (filter is_received
        (effects (run worker_process [InitialRunSettled Fulfilled, Signal SIGTERM, Signal SIGINT])))
      \<le> 1"
  by (simp add: run_def step_def worker_process_def segments)

text \<open>
  C1, amended. The handlers call \<open>shutdown\<close> for every signal, without a guard: as long
  as the process has not exited, the number of shutdown sequences started, and the number
  in progress, is the number of signals received. What happens at most once is the exit
  of the process.
\<close>

theorem every_signal_starts_a_shutdown:
  "(exited (run worker_process evs) = None \<longrightarrow>
      length (filter is_received (effects (run worker_process evs))) =
        length (filter is_signal evs) \<and>
      awaiting_close (run worker_process evs) + awaiting_quit (run worker_process evs) =
        length (filter is_signal evs)) \<and>
   length (filter is_exit (effects (run worker_process evs))) \<le> 1"
  using signals_run [of evs] exit_once [of evs] by blast

theorem every_signal_starts_a_shutdown_witness:
  "exited (run worker_process [InitialRunSettled Fulfilled, Signal SIGTERM, Signal SIGINT]) = None \<and>
   length (filter is_received
     (effects (run worker_process [InitialRunSettled Fulfilled, Signal SIGTERM, Signal SIGINT])))
     = 2 \<and>
   length (filter is_signal [InitialRunSettled Fulfilled, Signal SIGTERM, Signal SIGINT]) = 2"
proof -
  have live:
    "exited (run worker_process [InitialRunSettled Fulfilled, Signal SIGTERM, Signal SIGINT]) = None"
    by (simp add: run_def step_def worker_process_def segments)
  with every_signal_starts_a_shutdown
    [of "[InitialRunSettled Fulfilled, Signal SIGTERM, Signal SIGINT]"]
  show ?thesis by simp
qed

subsection \<open>The scheduler loop\<close>

lemma cycle_run:
  assumes "exited s = None" and "schedulerInterval s = Some t" and "\<not> cleared t"
  shows "run s [TimerFired, CycleSettled r] = emit (cycle_effects r) s"
  using assms
  by (cases r) (simp_all add: run_def step_def segments cycle_effects_def)

lemma cycles_run:
  assumes "exited s = None" and "schedulerInterval s = Some t" and "\<not> cleared t"
  shows "run s (concat (map (\<lambda>r. [TimerFired, CycleSettled r]) rs)) =
         emit (concat (map cycle_effects rs)) s"
  using assms
proof (induction rs arbitrary: s)
  case Nil
  show ?case by (simp add: run_Nil emit_def)
next
  case (Cons r rs)
  have "run s (concat (map (\<lambda>r. [TimerFired, CycleSettled r]) (r # rs))) =
        run (run s [TimerFired, CycleSettled r])
          (concat (map (\<lambda>r. [TimerFired, CycleSettled r]) rs))"
    by (simp add: run_def)
  also have "\<dots> =
        run (emit (cycle_effects r) s) (concat (map (\<lambda>r. [TimerFired, CycleSettled r]) rs))"
    using Cons.prems by (simp add: cycle_run)
  also have "\<dots> = emit (concat (map cycle_effects rs)) (emit (cycle_effects r) s)"
    using Cons.prems by (intro Cons.IH) (simp_all add: emit_def)
  also have "\<dots> = emit (concat (map cycle_effects (r # rs))) s"
    by (simp add: emit_def)
  finally show ?case .
qed

lemma scheduler_running_step:
  assumes "scheduler_running s" and "\<not> is_signal ev"
  shows "scheduler_running (step s ev) \<and>
    length (filter (\<lambda>fx. fx = runMasterScheduler) (effects (step s ev))) =
      length (filter (\<lambda>fx. fx = runMasterScheduler) (effects s)) +
      (if ev = TimerFired then 1 else 0)"
proof (cases ev)
  case (Signal sig)
  with assms show ?thesis by simp
next
  case (InitialRunSettled r)
  with assms show ?thesis by (simp add: scheduler_running_def step_def)
next
  case TimerFired
  with assms show ?thesis by (simp add: scheduler_running_def step_def segments)
next
  case (CycleSettled r)
  with assms show ?thesis by (cases r) (simp_all add: scheduler_running_def step_def segments)
next
  case (JobStarted w)
  with assms show ?thesis by (cases w) (simp_all add: scheduler_running_def step_def)
next
  case (JobFinished w)
  with assms show ?thesis by (cases w) (simp_all add: scheduler_running_def step_def)
next
  case (WorkerClosed w)
  with assms show ?thesis by (cases w) (simp_all add: scheduler_running_def step_def)
next
  case (QuitSettled q)
  with assms show ?thesis by (simp add: scheduler_running_def step_def)
next
  case (RedisStatus st)
  with assms show ?thesis by (simp add: scheduler_running_def step_def)
qed

lemma scheduler_running_run:
  assumes "scheduler_running s" and "\<forall>ev\<in>set evs. \<not> is_signal ev"
  shows "scheduler_running (run s evs) \<and>
    length (filter (\<lambda>fx. fx = runMasterScheduler) (effects (run s evs))) =
      length (filter (\<lambda>fx. fx = runMasterScheduler) (effects s)) +
      length (filter (\<lambda>ev. ev = TimerFired) evs)"
  using assms(2)
proof (induction evs rule: rev_induct)
  case Nil
  show ?case using assms(1) by (simp add: run_Nil)
next
  case (snoc ev evs)
  then have ih: "scheduler_running (run s evs)" and
    n: "length (filter (\<lambda>fx. fx = runMasterScheduler) (effects (run s evs))) =
      length (filter (\<lambda>fx. fx = runMasterScheduler) (effects s)) +
      length (filter (\<lambda>ev. ev = TimerFired) evs)" and ev: "\<not> is_signal ev"
    by simp_all
  from scheduler_running_step [OF ih ev] n show ?case
    by (simp add: run_snoc)
qed

lemma initial_run_settles:
  "scheduler_running (step worker_process (InitialRunSettled r0)) \<and>
   effects (step worker_process (InitialRunSettled r0)) =
     [console_log Workers_Starting, runMasterScheduler, console_log Workers_Active] @
     (case r0 of
        Fulfilled \<Rightarrow> []
      | Rejected err \<Rightarrow> [console_error (Scheduler_Initial_run_failed err)]) @
     [setInterval SCHEDULER_INTERVAL]"
  by (cases r0) (simp_all add: scheduler_running_def step_def worker_process_def segments)

text \<open>
  C6. The routine is called once when the process starts; however that first run settles,
  the timer is then set with an interval of 300000 ms (5 minutes). For any outcomes of the
  first run and of the cycles that follow, each firing of the timer calls the routine
  again, a rejected run only adds its line on the console, the timer stays set and the
  process does not exit. More generally, whatever events happen other than a termination
  signal, the timer stays set with its interval, the process does not exit, and the
  routine has been called once plus once per firing of the timer.
\<close>

theorem scheduler_survives_failures:
  "SCHEDULER_INTERVAL = 300000 \<and>
   effects (run worker_process
     (InitialRunSettled r0 # concat (map (\<lambda>r. [TimerFired, CycleSettled r]) rs))) =
     [console_log Workers_Starting, runMasterScheduler, console_log Workers_Active] @
     (case r0 of
        Fulfilled \<Rightarrow> []
      | Rejected err \<Rightarrow> [console_error (Scheduler_Initial_run_failed err)]) @
     [setInterval SCHEDULER_INTERVAL] @
     concat (map cycle_effects rs) \<and>
   ((\<forall>ev\<in>set evs. \<not> is_signal ev) \<longrightarrow>
      exited (run worker_process (InitialRunSettled r0 # evs)) = None \<and>
      schedulerInterval (run worker_process (InitialRunSettled r0 # evs)) =
        Some \<lparr>interval = 300000, cleared = False\<rparr> \<and>
      length (filter (\<lambda>fx. fx = runMasterScheduler)
        (effects (run worker_process (InitialRunSettled r0 # evs)))) =
        1 + length (filter (\<lambda>ev. ev = TimerFired) evs))"
proof -
  let ?s1 = "step worker_process (InitialRunSettled r0)"
  have interval: "SCHEDULER_INTERVAL = 300000"
    by (simp add: SCHEDULER_INTERVAL_def)
  have s1: "scheduler_running ?s1" and fx1: "effects ?s1 =
     [console_log Workers_Starting, runMasterScheduler, console_log Workers_Active] @
     (case r0 of
        Fulfilled \<Rightarrow> []
      | Rejected err \<Rightarrow> [console_error (Scheduler_Initial_run_failed err)]) @
     [setInterval SCHEDULER_INTERVAL]"
    using initial_run_settles [of r0] by simp_all
  have live: "exited ?s1 = None"
    and timer: "schedulerInterval ?s1 = Some \<lparr>interval = SCHEDULER_INTERVAL, cleared = False\<rparr>"
    using s1 by (simp_all add: scheduler_running_def)
  have "run ?s1 (concat (map (\<lambda>r. [TimerFired, CycleSettled r]) rs)) =
        emit (concat (map cycle_effects rs)) ?s1"
    using cycles_run [OF live timer] by simp
  then have cycles: "effects (run worker_process
     (InitialRunSettled r0 # concat (map (\<lambda>r. [TimerFired, CycleSettled r]) rs))) =
     [console_log Workers_Starting, runMasterScheduler, console_log Workers_Active] @
     (case r0 of
        Fulfilled \<Rightarrow> []
      | Rejected err \<Rightarrow> [console_error (Scheduler_Initial_run_failed err)]) @
     [setInterval SCHEDULER_INTERVAL] @
     concat (map cycle_effects rs)"
    by (simp add: run_Cons fx1 emit_def)
  have general: "exited (run worker_process (InitialRunSettled r0 # evs)) = None \<and>
      schedulerInterval (run worker_process (InitialRunSettled r0 # evs)) =
        Some \<lparr>interval = 300000, cleared = False\<rparr> \<and>
      length (filter (\<lambda>fx. fx = runMasterScheduler)
        (effects (run worker_process (InitialRunSettled r0 # evs)))) =
        1 + length (filter (\<lambda>ev. ev = TimerFired) evs)"
    if quiet: "\<forall>ev\<in>set evs. \<not> is_signal ev"
  proof -
    have n1: "length (filter (\<lambda>fx. fx = runMasterScheduler) (effects ?s1)) = 1"
      unfolding fx1 by (cases r0) simp_all
    from scheduler_running_run [OF s1 quiet] n1 show ?thesis
      by (simp add: run_Cons scheduler_running_def interval)
  qed
  from interval cycles general show ?thesis by blast
qed

theorem scheduler_survives_failures_witness:
  "filter is_signal
     [TimerFired, CycleSettled (Rejected ''timeout''), JobStarted CheckSource, TimerFired] = [] \<and>
   exited (run worker_process
     [InitialRunSettled (Rejected ''db down''), TimerFired, CycleSettled (Rejected ''timeout''),
      JobStarted CheckSource, TimerFired]) = None \<and>
   schedulerInterval (run worker_process
     [InitialRunSettled (Rejected ''db down''), TimerFired, CycleSettled (Rejected ''timeout''),
      JobStarted CheckSource, TimerFired]) = Some \<lparr>interval = 300000, cleared = False\<rparr> \<and>
   length (filter (\<lambda>fx. fx = runMasterScheduler)
     (effects (run worker_process
       [InitialRunSettled (Rejected ''db down''), TimerFired, CycleSettled (Rejected ''timeout''),
        JobStarted CheckSource, TimerFired]))) = 3"
  using scheduler_survives_failures
    [of "Rejected ''db down''" "[]"
        "[TimerFired, CycleSettled (Rejected ''timeout''), JobStarted CheckSource, TimerFired]"]
  by simp

subsection \<open>The shutdown sequence\<close>

lemma shutdown_effects:
  "effects (shutdown sig s) =
     effects s @ [console_log (Workers_Received sig)] @
     (case schedulerInterval s of None \<Rightarrow> [] | Some t \<Rightarrow> [clearInterval]) @
     [worker_close CheckSource, worker_close Notification]"
  by (simp add: shutdown_def close_worker_def emit_def Let_def split: option.splits)

lemma shutdown_safety:
  "(redis_quit \<in> set (effects (run worker_process evs)) \<or>
    redis_disconnect \<in> set (effects (run worker_process evs)) \<or>
    exited (run worker_process evs) \<noteq> None \<longrightarrow>
      (\<forall>w. closing (workers (run worker_process evs) w) \<and>
           closed (workers (run worker_process evs) w) \<and>
           inflight (workers (run worker_process evs) w) = 0))"
proof -
  let ?s = "run worker_process evs"
  have inv: "shutdown_invariant ?s" by (rule shutdown_invariant_run)
  have "closing (workers ?s w) \<and> closed (workers ?s w) \<and> inflight (workers ?s w) = 0"
    if "workers_closed ?s" for w
    using that inv by (cases w) (auto simp: shutdown_invariant_def workers_closed_def)
  with inv show ?thesis
    unfolding shutdown_invariant_def by blast
qed

text \<open>
  C3. The code does not stop the timer first in every shutdown. A SIGTERM received while
  \<open>startScheduler\<close> is still awaiting its first run finds \<open>schedulerInterval\<close> null, so
  \<open>shutdown\<close> calls no \<open>clearInterval\<close>; when the first run settles the timer is set,
  after \<open>close()\<close> has been called on the workers; the timer fires and the routine runs
  during the drain; and the shutdown goes on to the exit of the process with the timer
  never cleared. When the signal comes after the timer has been set, the same code clears
  it before it closes the workers.
\<close>

theorem signal_during_first_run_timer_never_cleared:
  "effects (run worker_process
     [Signal SIGTERM, InitialRunSettled Fulfilled, TimerFired, WorkerClosed CheckSource,
      WorkerClosed Notification, QuitSettled Fulfilled]) =
     [console_log Workers_Starting, runMasterScheduler, console_log Workers_Active,
      console_log (Workers_Received SIGTERM),
      worker_close CheckSource, worker_close Notification,
      setInterval 300000,
      runMasterScheduler,
      redis_quit, console_log Redis_Disconnected,
      console_log Workers_Shutdown_complete, process_exit 0] \<and>
   schedulerInterval (run worker_process
     [Signal SIGTERM, InitialRunSettled Fulfilled, TimerFired, WorkerClosed CheckSource,
      WorkerClosed Notification, QuitSettled Fulfilled]) =
     Some \<lparr>interval = 300000, cleared = False\<rparr> \<and>
   effects (run worker_process
     [InitialRunSettled Fulfilled, Signal SIGTERM, TimerFired, WorkerClosed CheckSource,
      WorkerClosed Notification, QuitSettled Fulfilled]) =
     [console_log Workers_Starting, runMasterScheduler, console_log Workers_Active,
      setInterval 300000,
      console_log (Workers_Received SIGTERM), clearInterval,
      worker_close CheckSource, worker_close Notification,
      redis_quit, console_log Redis_Disconnected,
      console_log Workers_Shutdown_complete, process_exit 0]"
  by (simp add: run_def step_def worker_process_def segments SCHEDULER_INTERVAL_def)

end
